theory Spec2Isabelle
  imports Main "HOL-Library.Char_ord" "HOL-Library.List_Lexorder"
    "HOL-Library.Product_Lexorder"
begin

section \<open>The sessions table\<close>

text \<open>
  One row of the table \<^verbatim>\<open>sessions\<close> created by \<^verbatim>\<open>init_db\<close>. The columns keep
  their names; the primary key \<^verbatim>\<open>id\<close> is called \<open>session_id\<close>. A nullable column is
  an option, \<open>None\<close> standing for SQL NULL. \<^verbatim>\<open>username\<close> is nullable in the schema,
  but the only INSERT of the program always supplies it, so it is a plain string.
\<close>

record session =
  session_id :: nat
  user_id :: string
  username :: string
  start_ts :: int
  end_ts :: "int option"
  duration_minutes :: "int option"
  description :: "string option"
  created_at :: int

text \<open>
  The table is the list of its rows in rowid order: every INSERT appends. No statement
  of the program deletes a row, so the AUTOINCREMENT counter is the largest id in the
  table, and a fresh id is one more than that.
\<close>

type_synonym db = "session list"

definition next_id :: "db \<Rightarrow> nat" where
  "next_id rows = Suc (foldl max 0 (map session_id rows))"

section \<open>Utility functions\<close>

text \<open>
  \<^verbatim>\<open>get_current_session\<close>: the query
  \<^verbatim>\<open>SELECT * FROM sessions WHERE user_id = ? AND end_ts IS NULL\<close> followed by
  \<^verbatim>\<open>fetchone()\<close>. The query has no ORDER BY; SQLite walks the table (or the index
  \<^verbatim>\<open>idx_user\<close>, whose entries for one user are in rowid order) and \<^verbatim>\<open>fetchone\<close> takes
  the first row it yields, which is the matching row with the smallest rowid. No row
  gives Python's \<^verbatim>\<open>None\<close>.
\<close>

definition is_active_for :: "string \<Rightarrow> session \<Rightarrow> bool" where
  "is_active_for uid s \<longleftrightarrow> user_id s = uid \<and> end_ts s = None"

definition get_current_session :: "db \<Rightarrow> string \<Rightarrow> session option" where
  "get_current_session rows uid = find (is_active_for uid) rows"

text \<open>
  \<^verbatim>\<open>round(duration_seconds / 60)\<close> on a Python int: true division and then rounding
  to the nearest integer, a tie going to the even neighbour. The quotient is a tie
  exactly when the remainder is 30; for every other remainder it is at least 1/60 away
  from a tie, far more than the error of the floating-point division for any number of
  seconds below \<open>2 ^ 52\<close>, so the result is the one computed here on integers.
\<close>

definition round_div60 :: "int \<Rightarrow> int" where
  "round_div60 n =
     (let q = n div 60; r = n mod 60
      in if r < 30 then q
         else if 30 < r then q + 1
         else if even q then q else q + 1)"

text \<open>
  \<^verbatim>\<open>get_session_duration\<close> reads the clock itself; the reading
  \<^verbatim>\<open>int(time.time())\<close> is the parameter \<open>now\<close>.
\<close>

definition get_session_duration :: "session \<Rightarrow> int \<Rightarrow> int" where
  "get_session_duration s now = round_div60 (now - start_ts s)"

text \<open>
  \<^verbatim>\<open>time.strftime('%H:%M:%S', time.gmtime(ts))\<close>: the time of day of an epoch second
  in UTC, each part with two digits.
\<close>

definition two_digits :: "int \<Rightarrow> string" where
  "two_digits n = [char_of (48 + n div 10), char_of (48 + n mod 10)]"

definition strftime_HMS :: "int \<Rightarrow> string" where
  "strftime_HMS ts =
     two_digits (ts mod 86400 div 3600) @ '':'' @
     two_digits (ts mod 3600 div 60) @ '':'' @
     two_digits (ts mod 60)"

section \<open>User commands\<close>

text \<open>
  What a command sends back. Each constructor is one of the embeds or messages of the
  source, with the values its text is built from.
\<close>

datatype response =
    AlreadyLoggedIn string
  | ClockedIn
  | NotLoggedIn
  | SessionLogged int int string
  | ClockedOut
  | WorkingFor int int string

text \<open>
  \<^verbatim>\<open>login\<close>. The arguments are the author's id and name, the reading of the clock
  \<open>current_ts\<close>, and the reading SQLite takes for the default of \<^verbatim>\<open>created_at\<close>. The
  source calls \<^verbatim>\<open>get_current_session\<close> once for the test and once more for the row;
  nothing runs in between, so both calls see the same table.
\<close>

definition login :: "db \<Rightarrow> string \<Rightarrow> string \<Rightarrow> int \<Rightarrow> int \<Rightarrow> response \<times> db" where
  "login rows uid uname current_ts db_now =
     (case get_current_session rows uid of
        Some s \<Rightarrow> (AlreadyLoggedIn (strftime_HMS (start_ts s)), rows)
      | None \<Rightarrow>
          (ClockedIn,
           rows @ [\<lparr>session_id = next_id rows, user_id = uid, username = uname,
                    start_ts = current_ts, end_ts = None, duration_minutes = None,
                    description = None, created_at = db_now\<rparr>]))"

text \<open>
  The UPDATE of \<^verbatim>\<open>logout\<close>: the three closing columns of every row with the given id.
\<close>

definition close_session :: "db \<Rightarrow> nat \<Rightarrow> int \<Rightarrow> int \<Rightarrow> string \<Rightarrow> db" where
  "close_session rows sid e d txt =
     map (\<lambda>s. if session_id s = sid
               then s\<lparr>end_ts := Some e, duration_minutes := Some d, description := Some txt\<rparr>
               else s) rows"

text \<open>
  \<^verbatim>\<open>logout\<close> has two parts with a wait between them. The first reads the active
  session. The second, \<open>logout_finish\<close>, runs once the reply has come or the wait has
  timed out: \<open>reply\<close> is the stripped content of the reply, or \<open>None\<close> after the
  timeout. It reads the clock twice: \<open>t_dur\<close> is the reading taken inside
  \<^verbatim>\<open>get_session_duration\<close>, \<open>t_end\<close> the one stored as \<^verbatim>\<open>end_ts\<close>.
\<close>

definition logout_finish ::
    "db \<Rightarrow> session \<Rightarrow> string option \<Rightarrow> int \<Rightarrow> int \<Rightarrow> response \<times> db" where
  "logout_finish rows s reply t_dur t_end =
     (let txt = (case reply of Some m \<Rightarrow> m
                 | None \<Rightarrow> ''No description provided (Timed out).'');
          sid = session_id s;
          d = get_session_duration s t_dur;
          e = t_end
      in (SessionLogged (d div 60) (d mod 60) txt, close_session rows sid e d txt))"

definition logout ::
    "db \<Rightarrow> string \<Rightarrow> string option \<Rightarrow> int \<Rightarrow> int \<Rightarrow> response \<times> db" where
  "logout rows uid reply t_dur t_end =
     (case get_current_session rows uid of
        None \<Rightarrow> (NotLoggedIn, rows)
      | Some s \<Rightarrow> logout_finish rows s reply t_dur t_end)"

text \<open>\<^verbatim>\<open>status\<close> writes nothing.\<close>

definition status :: "db \<Rightarrow> string \<Rightarrow> int \<Rightarrow> response \<times> db" where
  "status rows uid now =
     (case get_current_session rows uid of
        None \<Rightarrow> (ClockedOut, rows)
      | Some s \<Rightarrow>
          (let d = get_session_duration s now
           in (WorkingFor (d div 60) (d mod 60) (strftime_HMS (start_ts s)), rows)))"

text \<open>
  The commands as values, and their serial execution: one command runs to its end
  before the next begins.
\<close>

datatype command =
    Login string string int int
  | Logout string "string option" int int
  | Status string int

fun exec :: "db \<Rightarrow> command \<Rightarrow> response \<times> db" where
  "exec rows (Login uid uname current_ts db_now) = login rows uid uname current_ts db_now"
| "exec rows (Logout uid reply t_dur t_end) = logout rows uid reply t_dur t_end"
| "exec rows (Status uid now) = status rows uid now"

fun run :: "db \<Rightarrow> command list \<Rightarrow> db" where
  "run rows [] = rows"
| "run rows (c # cs) = run (snd (exec rows c)) cs"

text \<open>
  The states the bot can be in when commands overlap. A handler gives way to other
  handlers only where it awaits: \<^verbatim>\<open>login\<close> and \<^verbatim>\<open>status\<close> do all their work on
  the table before their first await, \<^verbatim>\<open>logout\<close> awaits the reply between reading the
  session and writing it. A state is the table together with the sessions read by
  the \<^verbatim>\<open>logout\<close> handlers that are waiting for their reply.
\<close>

inductive reachable :: "db \<Rightarrow> session list \<Rightarrow> bool" where
  start: "reachable [] []"
| do_login: "reachable rows ws \<Longrightarrow> reachable (snd (login rows uid uname current_ts db_now)) ws"
| do_status: "reachable rows ws \<Longrightarrow> reachable (snd (status rows uid now)) ws"
| logout_wait: "reachable rows ws \<Longrightarrow> get_current_session rows uid = Some s \<Longrightarrow>
     reachable rows (s # ws)"
| logout_done: "reachable rows ws \<Longrightarrow> s \<in> set ws \<Longrightarrow>
     reachable (snd (logout_finish rows s reply t_dur t_end)) (remove1 s ws)"

text \<open>The number of rows of a user with \<^verbatim>\<open>end_ts\<close> NULL.\<close>

definition active_count :: "db \<Rightarrow> string \<Rightarrow> nat" where
  "active_count rows uid = length (filter (is_active_for uid) rows)"

text \<open>A row is open when its three closing columns are NULL, closed when none is.\<close>

definition close_fields_together :: "session \<Rightarrow> bool" where
  "close_fields_together s \<longleftrightarrow>
     (end_ts s = None \<and> duration_minutes s = None \<and> description s = None) \<or>
     (end_ts s \<noteq> None \<and> duration_minutes s \<noteq> None \<and> description s \<noteq> None)"

section \<open>Aggregation\<close>

text \<open>
  The grouped query of \<^verbatim>\<open>leaderboard\<close> and of the server report:
  \<^verbatim>\<open>SELECT username, SUM(duration_minutes), COUNT(id) FROM sessions
  WHERE duration_minutes IS NOT NULL GROUP BY user_id, username
  ORDER BY total_minutes DESC LIMIT n\<close>.
  Each row with a duration is added to the group of its pair (user_id, username): the
  group's sum grows by the duration and its count by one; a pair seen for the first
  time opens a group. SQLite keeps the groups in a tree ordered by the pair, user_id
  first and username second, each compared byte by byte (a proper prefix before its
  extensions), and hands them on in that order. The sort for ORDER BY then leaves
  groups of equal total in the order in which they arrive, and LIMIT keeps the first
  \<open>n\<close>. SQL itself leaves the order of groups with equal totals open; this is the
  order SQLite produces.
\<close>

type_synonym group_key = "string \<times> string"
type_synonym agg_row = "group_key \<times> int \<times> nat"

fun add_to_group :: "group_key \<Rightarrow> int \<Rightarrow> agg_row list \<Rightarrow> agg_row list" where
  "add_to_group k d [] = [(k, d, 1)]"
| "add_to_group k d ((k', t, c) # gs) =
     (if k' = k then (k', t + d, Suc c) # gs
      else if k < k' then (k, d, 1) # (k', t, c) # gs
      else (k', t, c) # add_to_group k d gs)"

definition group_step :: "agg_row list \<Rightarrow> session \<Rightarrow> agg_row list" where
  "group_step gs s =
     (case duration_minutes s of
        None \<Rightarrow> gs
      | Some d \<Rightarrow> add_to_group (user_id s, username s) d gs)"

definition aggregate_by_user :: "db \<Rightarrow> agg_row list" where
  "aggregate_by_user rows = foldl group_step [] rows"

definition total_minutes :: "agg_row \<Rightarrow> int" where
  "total_minutes g = fst (snd g)"

fun insert_desc :: "agg_row \<Rightarrow> agg_row list \<Rightarrow> agg_row list" where
  "insert_desc g [] = [g]"
| "insert_desc g (h # hs) =
     (if total_minutes h \<le> total_minutes g then g # h # hs else h # insert_desc g hs)"

fun order_by_total_desc :: "agg_row list \<Rightarrow> agg_row list" where
  "order_by_total_desc [] = []"
| "order_by_total_desc (g # gs) = insert_desc g (order_by_total_desc gs)"

definition top_groups :: "nat \<Rightarrow> db \<Rightarrow> agg_row list" where
  "top_groups n rows = take n (order_by_total_desc (aggregate_by_user rows))"

text \<open>The rows the two queries return: the selected columns of the first groups.\<close>

definition leaderboard_query :: "db \<Rightarrow> (string \<times> int) list" where
  "leaderboard_query rows = map (\<lambda>((uid, uname), t, c). (uname, t)) (top_groups 10 rows)"

definition server_report_query :: "db \<Rightarrow> (string \<times> int \<times> nat) list" where
  "server_report_query rows = map (\<lambda>((uid, uname), t, c). (uname, t, c)) (top_groups 5 rows)"

text \<open>
  The query of the report for one user,
  \<^verbatim>\<open>SELECT SUM(duration_minutes), COUNT(id) FROM sessions
  WHERE user_id = ? AND duration_minutes IS NOT NULL\<close>: one result row whatever the
  table holds. SUM starts as NULL and stays NULL until a row is added; COUNT starts
  at 0.
\<close>

definition user_step :: "string \<Rightarrow> int option \<times> nat \<Rightarrow> session \<Rightarrow> int option \<times> nat" where
  "user_step uid acc s =
     (case duration_minutes s of
        None \<Rightarrow> acc
      | Some d \<Rightarrow>
          if user_id s = uid
          then (case fst acc of None \<Rightarrow> (Some d, Suc (snd acc))
                | Some t \<Rightarrow> (Some (t + d), Suc (snd acc)))
          else acc)"

definition user_totals :: "db \<Rightarrow> string \<Rightarrow> int option \<times> nat" where
  "user_totals rows uid = foldl (user_step uid) (None, 0) rows"

text \<open>
  What \<^verbatim>\<open>leaderboard\<close> and \<^verbatim>\<open>report\<close> send: the message for an empty result, or
  the lines of the embed with hours and minutes as \<^verbatim>\<open>total // 60\<close> and
  \<^verbatim>\<open>total % 60\<close>. \<^verbatim>\<open>report\<close> runs only for an administrator (the decorator
  refuses everyone else before the body), with the member it was given, if any, as
  the pair of the member's id and name.
\<close>

datatype board_response =
    NoCompletedYet
  | Leaderboard "(nat \<times> string \<times> int \<times> int) list"

datatype report_response =
    NoCompletedFound string
  | WorkReport string nat int int
  | NoCompletedInDatabase
  | ServerSummary "(string \<times> int \<times> int \<times> nat) list"

definition leaderboard :: "db \<Rightarrow> board_response" where
  "leaderboard rows =
     (case leaderboard_query rows of
        [] \<Rightarrow> NoCompletedYet
      | results \<Rightarrow>
          Leaderboard (map (\<lambda>(i, uname, t). (i + 1, uname, t div 60, t mod 60))
                         (enumerate 0 results)))"

definition report :: "db \<Rightarrow> (string \<times> string) option \<Rightarrow> report_response" where
  "report rows target_user =
     (case target_user of
        Some (uid, uname) \<Rightarrow>
          (case user_totals rows uid of
             (None, session_count) \<Rightarrow> NoCompletedFound uname
           | (Some total_mins, session_count) \<Rightarrow>
               WorkReport uname session_count (total_mins div 60) (total_mins mod 60))
      | None \<Rightarrow>
          (case server_report_query rows of
             [] \<Rightarrow> NoCompletedInDatabase
           | results \<Rightarrow>
               ServerSummary (map (\<lambda>(uname, t, c). (uname, t div 60, t mod 60, c)) results)))"

text \<open>
  The durations of the completed sessions of one user, and of one pair of user and
  name, in table order: what the sums and counts above are measured against.
\<close>

definition user_durations :: "db \<Rightarrow> string \<Rightarrow> int list" where
  "user_durations rows uid =
     List.map_filter (\<lambda>s. if user_id s = uid then duration_minutes s else None) rows"

definition key_durations :: "db \<Rightarrow> group_key \<Rightarrow> int list" where
  "key_durations rows k =
     List.map_filter
       (\<lambda>s. if (user_id s, username s) = k then duration_minutes s else None) rows"

text \<open>Lists of totals that never rise, and lists that fall at every step.\<close>

definition descending :: "int list \<Rightarrow> bool" where
  "descending ts = sorted_wrt (\<lambda>a b. b \<le> a) ts"

definition strictly_descending :: "int list \<Rightarrow> bool" where
  "strictly_descending ts = sorted_wrt (\<lambda>a b. b < a) ts"

text \<open>
  A group that already holds a sum and a count, after the durations \<open>ds\<close> have been
  added to it; used to describe the accumulation of the grouped query.
\<close>

definition merge_group :: "(int \<times> nat) option \<Rightarrow> int list \<Rightarrow> (int \<times> nat) option" where
  "merge_group old ds =
     (case old of
        None \<Rightarrow> if ds = [] then None else Some (sum_list ds, length ds)
      | Some (t, c) \<Rightarrow> Some (t + sum_list ds, c + length ds))"

section \<open>Example tables\<close>

text \<open>
  A session from 09:00:00 to 09:30:00 that has been closed, and one that is still
  open, of another user.
\<close>

definition closed_row :: session where
  "closed_row = \<lparr>session_id = 1, user_id = ''u1'', username = ''ann'', start_ts = 32400,
     end_ts = Some 34200, duration_minutes = Some 30, description = Some ''wrote spec'',
     created_at = 32400\<rparr>"

definition open_row :: session where
  "open_row = \<lparr>session_id = 2, user_id = ''u2'', username = ''bob'', start_ts = 36000,
     end_ts = None, duration_minutes = None, description = None, created_at = 36000\<rparr>"

text \<open>Two open sessions of one user, the second started later than the first.\<close>

definition older_active :: session where
  "older_active = \<lparr>session_id = 2, user_id = ''u1'', username = ''ann'', start_ts = 100,
     end_ts = None, duration_minutes = None, description = None, created_at = 100\<rparr>"

definition newer_active :: session where
  "newer_active = \<lparr>session_id = 3, user_id = ''u1'', username = ''ann'', start_ts = 200,
     end_ts = None, duration_minutes = None, description = None, created_at = 200\<rparr>"

text \<open>
  Three users who work 120, 90 and 150 minutes; two users who work 30 minutes each;
  one user who works 30 minutes under one name and 60 minutes under another.
\<close>

definition abc_commands :: "command list" where
  "abc_commands =
     [Login ''1'' ''A'' 0 0, Logout ''1'' (Some ''a'') 7200 7200,
      Login ''2'' ''B'' 0 0, Logout ''2'' (Some ''b'') 5400 5400,
      Login ''3'' ''C'' 0 0, Logout ''3'' (Some ''c'') 9000 9000]"

definition tie_commands :: "command list" where
  "tie_commands =
     [Login ''1'' ''A'' 0 0, Logout ''1'' (Some ''a'') 1800 1800,
      Login ''2'' ''B'' 0 0, Logout ''2'' (Some ''b'') 1800 1800]"

definition ann_row :: session where
  "ann_row = \<lparr>session_id = 1, user_id = ''1'', username = ''ann'', start_ts = 0,
     end_ts = Some 1800, duration_minutes = Some 30, description = Some ''a'',
     created_at = 0\<rparr>"

definition annie_row :: session where
  "annie_row = \<lparr>session_id = 2, user_id = ''1'', username = ''annie'', start_ts = 3600,
     end_ts = Some 7200, duration_minutes = Some 60, description = Some ''b'',
     created_at = 3600\<rparr>"

definition rename_commands :: "command list" where
  "rename_commands =
     [Login ''1'' ''ann'' 0 0, Logout ''1'' (Some ''a'') 1800 1800,
      Login ''1'' ''annie'' 3600 3600, Logout ''1'' (Some ''b'') 7200 7200]"

section \<open>The active-session lookup\<close>

lemma get_current_session_None_iff:
  "get_current_session rows uid = None \<longleftrightarrow> (\<forall>s\<in>set rows. \<not> is_active_for uid s)"
  by (auto simp: get_current_session_def find_None_iff)

lemma get_current_session_SomeD:
  "get_current_session rows uid = Some s \<Longrightarrow> s \<in> set rows \<and> is_active_for uid s"
  by (auto simp: get_current_session_def find_Some_iff)

lemma get_current_session_append_new:
  assumes "get_current_session rows uid = None" and "is_active_for uid s"
  shows "get_current_session (rows @ [s]) uid = Some s"
  using assms by (induction rows) (auto simp: get_current_session_def split: if_splits)

lemma active_count_0_iff:
  "active_count rows uid = 0 \<longleftrightarrow> (\<forall>s\<in>set rows. \<not> is_active_for uid s)"
  by (auto simp: active_count_def filter_empty_conv)

lemma active_count_append:
  "active_count (rows @ [s]) uid =
     active_count rows uid + (if is_active_for uid s then 1 else 0)"
  by (simp add: active_count_def)

lemma active_unique:
  assumes "active_count rows uid \<le> 1"
    and "s \<in> set rows" and "is_active_for uid s"
    and "r \<in> set rows" and "is_active_for uid r"
  shows "s = r"
proof -
  from assms have "s \<in> set (filter (is_active_for uid) rows)"
    and "r \<in> set (filter (is_active_for uid) rows)"
    by simp_all
  moreover from assms(1) have "length (filter (is_active_for uid) rows) \<le> 1"
    by (simp add: active_count_def)
  ultimately show ?thesis
    by (cases "filter (is_active_for uid) rows") auto
qed

text \<open>
  Claim C3, against the code. With two open rows of one user in the table, the lookup
  returns a row and raises nothing, and the row it returns is the one with the older
  \<^verbatim>\<open>start_ts\<close>, not the most recent one.
\<close>

theorem lookup_returns_oldest_active:
  "active_count [older_active, newer_active] ''u1'' = 2 \<and>
   get_current_session [older_active, newer_active] ''u1'' = Some older_active \<and>
   start_ts older_active < start_ts newer_active"
  by code_simp

text \<open>
  The lookup tests \<^verbatim>\<open>user_id\<close> and \<^verbatim>\<open>end_ts\<close> only: giving the rows other start
  times changes neither which rows are open nor which of them is returned.
\<close>

lemma get_current_session_map_start_ts:
  "get_current_session (map (\<lambda>x. x\<lparr>start_ts := f x\<rparr>) rows) uid =
     map_option (\<lambda>x. x\<lparr>start_ts := f x\<rparr>) (get_current_session rows uid)"
  by (induction rows) (auto simp: get_current_session_def is_active_for_def)

text \<open>
  Claim C3, as amended. When the table holds an open row of the user, one or several,
  the lookup returns one of the user's open rows, and the start times play no part
  in the choice: with the start times of all rows replaced by any others, the lookup
  returns the same row, carrying its new start time. So the row returned need not be
  the one with the most recent \<^verbatim>\<open>start_ts\<close>.
\<close>

theorem lookup_ignores_start_ts:
  assumes "r \<in> set rows" and "is_active_for uid r"
  shows "\<exists>s. get_current_session rows uid = Some s \<and> s \<in> set rows \<and>
     is_active_for uid s \<and>
     get_current_session (map (\<lambda>x. x\<lparr>start_ts := f x\<rparr>) rows) uid =
       Some (s\<lparr>start_ts := f s\<rparr>)"
proof -
  from assms have "get_current_session rows uid \<noteq> None"
    by (auto simp: get_current_session_None_iff)
  then obtain s where s: "get_current_session rows uid = Some s" by auto
  then have "s \<in> set rows" and "is_active_for uid s"
    by (simp_all add: get_current_session_SomeD)
  moreover have "get_current_session (map (\<lambda>x. x\<lparr>start_ts := f x\<rparr>) rows) uid =
      Some (s\<lparr>start_ts := f s\<rparr>)"
    by (simp add: get_current_session_map_start_ts s)
  ultimately show ?thesis using s by blast
qed

text \<open>
  An instance of the amended claim C3: a closed row, then the two open rows of one
  user, started at 100 and at 200. The lookup returns the one started at 100. With
  every start time \<open>t\<close> replaced by \<open>300 - t\<close> that row is the later of the two, and
  it is still the one returned.
\<close>

theorem lookup_ignores_start_ts_witness:
  "newer_active \<in> set [closed_row, older_active, newer_active] \<and>
   is_active_for ''u1'' newer_active \<and>
   get_current_session [closed_row, older_active, newer_active] ''u1'' = Some older_active \<and>
   get_current_session
     (map (\<lambda>x. x\<lparr>start_ts := 300 - start_ts x\<rparr>) [closed_row, older_active, newer_active])
     ''u1'' = Some (older_active\<lparr>start_ts := 200\<rparr>) \<and>
   start_ts (newer_active\<lparr>start_ts := 300 - start_ts newer_active\<rparr>) = 100"
proof -
  have a: "newer_active \<in> set [closed_row, older_active, newer_active]" by simp
  have b: "is_active_for ''u1'' newer_active"
    by (simp add: is_active_for_def newer_active_def)
  have c: "get_current_session [closed_row, older_active, newer_active] ''u1'' =
      Some older_active"
    by code_simp
  have d: "300 - start_ts older_active = 200" "300 - start_ts newer_active = 100"
    by (simp_all add: older_active_def newer_active_def)
  from lookup_ignores_start_ts [OF a b, of "\<lambda>x. 300 - start_ts x"] c d a b
  show ?thesis by auto
qed

section \<open>Login and logout\<close>

text \<open>
  Claim C4. When the table holds an open row \<open>r\<close> of the user, \<open>login\<close> answers
  "Already Logged In" with the start time of the session \<open>s\<close> the lookup returns,
  and the table it leaves is the table it found. Where the user has at most one open
  row, \<open>s\<close> is \<open>r\<close>.
\<close>

theorem login_while_active:
  assumes "r \<in> set rows" and "is_active_for uid r"
  shows "\<exists>s. get_current_session rows uid = Some s \<and> s \<in> set rows \<and>
     is_active_for uid s \<and> (active_count rows uid \<le> 1 \<longrightarrow> s = r) \<and>
     login rows uid uname current_ts db_now =
       (AlreadyLoggedIn (strftime_HMS (start_ts s)), rows)"
proof -
  from assms have "get_current_session rows uid \<noteq> None"
    by (auto simp: get_current_session_None_iff)
  then obtain s where s: "get_current_session rows uid = Some s" by auto
  then have in_rows: "s \<in> set rows" "is_active_for uid s"
    by (simp_all add: get_current_session_SomeD)
  have "active_count rows uid \<le> 1 \<longrightarrow> s = r"
    using in_rows assms by (blast intro: active_unique)
  moreover have "login rows uid uname current_ts db_now =
      (AlreadyLoggedIn (strftime_HMS (start_ts s)), rows)"
    by (simp add: login_def s)
  ultimately show ?thesis using s in_rows by blast
qed

text \<open>
  An instance of claim C4: the user of the open session, started at 10:00:00, logs in
  again an hour later.
\<close>

theorem login_while_active_witness:
  "open_row \<in> set [closed_row, open_row] \<and> is_active_for ''u2'' open_row \<and>
   login [closed_row, open_row] ''u2'' ''bob'' 39600 39600 =
     (AlreadyLoggedIn ''10:00:00'', [closed_row, open_row])"
proof -
  have a: "open_row \<in> set [closed_row, open_row]" by simp
  have b: "is_active_for ''u2'' open_row" by (simp add: is_active_for_def open_row_def)
  have c: "active_count [closed_row, open_row] ''u2'' \<le> 1" by code_simp
  have d: "strftime_HMS (start_ts open_row) = ''10:00:00''" by code_simp
  from login_while_active [OF a b, of "''bob''" 39600 39600] c d a b show ?thesis
    by auto
qed

text \<open>
  Claim C5. When the user has no open session, \<open>logout\<close> answers "Not Logged In" and
  the table after the call is the table before it.
\<close>

theorem logout_while_idle:
  assumes "get_current_session rows uid = None"
  shows "logout rows uid reply t_dur t_end = (NotLoggedIn, rows)"
  using assms by (simp add: logout_def)

text \<open>An instance of claim C5: the user whose only session is closed logs out.\<close>

theorem logout_while_idle_witness:
  "get_current_session [closed_row, open_row] ''u1'' = None \<and>
   logout [closed_row, open_row] ''u1'' (Some ''done'') 40000 40000 =
     (NotLoggedIn, [closed_row, open_row])"
proof -
  have a: "get_current_session [closed_row, open_row] ''u1'' = None" by code_simp
  from a logout_while_idle [OF a] show ?thesis by simp
qed

text \<open>
  When both readings of the clock in \<open>logout\<close> give the same second, the duration it
  stores is the rounded difference of the stored \<^verbatim>\<open>end_ts\<close> and the session's
  \<^verbatim>\<open>start_ts\<close>.
\<close>

lemma logout_same_reading:
  assumes "get_current_session rows uid = Some s"
  shows "\<exists>dsc. snd (logout rows uid reply t t) =
     close_session rows (session_id s) t (round_div60 (t - start_ts s)) dsc"
  using assms by (auto simp: logout_def logout_finish_def Let_def get_session_duration_def)

text \<open>
  Claim C1, on the code. A session starts at second 1000. At logout the clock reads
  1030 inside \<^verbatim>\<open>get_session_duration\<close> and 1031 when \<^verbatim>\<open>end_ts\<close> is taken. The row
  is stored with \<^verbatim>\<open>end_ts\<close> 1031 and \<^verbatim>\<open>duration_minutes\<close> 0, while the rounded
  difference of the stored \<^verbatim>\<open>end_ts\<close> and \<^verbatim>\<open>start_ts\<close> is 1.
\<close>

theorem stored_duration_differs_from_end_ts:
  "logout (snd (login [] ''u1'' ''ann'' 1000 1000)) ''u1'' (Some ''x'') 1030 1031 =
     (SessionLogged 0 0 ''x'',
      [\<lparr>session_id = 1, user_id = ''u1'', username = ''ann'', start_ts = 1000,
        end_ts = Some 1031, duration_minutes = Some 0, description = Some ''x'',
        created_at = 1000\<rparr>]) \<and>
   round_div60 (1031 - 1000) = 1"
  by code_simp

section \<open>Invariants of the table\<close>

lemma status_db: "snd (status rows uid now) = rows"
  by (simp add: status_def Let_def split: option.split)

lemma active_count_close_session:
  "active_count (close_session rows sid e d dsc) uid \<le> active_count rows uid"
  by (induction rows) (auto simp: active_count_def close_session_def is_active_for_def)

lemma active_count_login:
  assumes "active_count rows v \<le> 1"
  shows "active_count (snd (login rows uid uname current_ts db_now)) v \<le> 1"
proof (cases "get_current_session rows uid")
  case None
  then have "active_count rows uid = 0"
    by (simp add: get_current_session_None_iff active_count_0_iff)
  with None assms show ?thesis
    by (auto simp: login_def active_count_append is_active_for_def)
next
  case (Some s)
  with assms show ?thesis by (simp add: login_def)
qed

lemma active_count_logout_finish:
  "active_count (snd (logout_finish rows s reply t_dur t_end)) v \<le> active_count rows v"
  by (simp add: logout_finish_def Let_def active_count_close_session)

lemma active_count_logout:
  "active_count (snd (logout rows uid reply t_dur t_end)) v \<le> active_count rows v"
  by (simp add: logout_def active_count_logout_finish split: option.split)

lemma exec_active_count:
  assumes "active_count rows v \<le> 1"
  shows "active_count (snd (exec rows c)) v \<le> 1"
proof (cases c)
  case (Login uid uname current_ts db_now)
  from assms have "active_count (snd (login rows uid uname current_ts db_now)) v \<le> 1"
    by (rule active_count_login)
  with Login show ?thesis by simp
next
  case (Logout uid reply t_dur t_end)
  have "active_count (snd (logout rows uid reply t_dur t_end)) v \<le> active_count rows v"
    by (rule active_count_logout)
  with assms Logout show ?thesis by simp
next
  case (Status uid now)
  with assms show ?thesis by (simp add: status_db)
qed

lemma reachable_active_count: "reachable rows ws \<Longrightarrow> active_count rows v \<le> 1"
proof (induction rule: reachable.induct)
  case start
  show ?case by (simp add: active_count_def)
next
  case (do_login rows ws uid uname current_ts db_now)
  from do_login.IH show ?case by (rule active_count_login)
next
  case (do_status rows ws uid now)
  then show ?case by (simp add: status_db)
next
  case (logout_wait rows ws uid s)
  then show ?case by simp
next
  case (logout_done rows ws s reply t_dur t_end)
  have "active_count (snd (logout_finish rows s reply t_dur t_end)) v \<le> active_count rows v"
    by (rule active_count_logout_finish)
  with logout_done.IH show ?case by simp
qed

text \<open>Every table produced by running commands one after another is reachable.\<close>

lemma run_reachable: "reachable rows [] \<Longrightarrow> reachable (run rows cs) []"
proof (induction cs arbitrary: rows)
  case Nil
  then show ?case by simp
next
  case (Cons c cs)
  have "reachable (snd (exec rows c)) []"
  proof (cases c)
    case (Login uid uname current_ts db_now)
    with Cons.prems show ?thesis by (simp add: reachable.do_login)
  next
    case (Logout uid reply t_dur t_end)
    show ?thesis
    proof (cases "get_current_session rows uid")
      case None
      with Logout Cons.prems show ?thesis by (simp add: logout_def)
    next
      case (Some s)
      from Cons.prems Some have "reachable rows [s]" by (rule reachable.logout_wait)
      then have "reachable (snd (logout_finish rows s reply t_dur t_end)) (remove1 s [s])"
        by (rule reachable.logout_done) simp
      with Logout Some show ?thesis by (simp add: logout_def)
    qed
  next
    case (Status uid now)
    with Cons.prems show ?thesis by (simp add: status_db)
  qed
  then show ?case by (simp add: Cons.IH)
qed

text \<open>
  Claim C2. In every state the bot can reach from the empty table, every user has at
  most one row with \<^verbatim>\<open>end_ts\<close> absent; and from any table with that property, one
  command (login, logout or status) run to its end leaves a table with that property.
\<close>

theorem one_active_session_per_user:
  "(reachable rows ws \<longrightarrow> (\<forall>uid. active_count rows uid \<le> 1)) \<and>
   ((\<forall>uid. active_count rows' uid \<le> 1) \<longrightarrow>
      (\<forall>uid. active_count (snd (exec rows' c)) uid \<le> 1))"
  by (blast intro: reachable_active_count exec_active_count)

text \<open>
  An instance of claim C2: the table after a first login, and a login of a second
  user into a table with one closed and one open session.
\<close>

theorem one_active_session_per_user_witness:
  "reachable (snd (login [] ''u1'' ''ann'' 32400 32400)) [] \<and>
   (\<forall>uid. active_count (snd (login [] ''u1'' ''ann'' 32400 32400)) uid \<le> 1) \<and>
   (\<forall>uid. active_count [closed_row, open_row] uid \<le> 1) \<and>
   (\<forall>uid. active_count
      (snd (exec [closed_row, open_row] (Login ''u1'' ''ann'' 39600 39600))) uid \<le> 1)"
proof -
  have a: "reachable (snd (login [] ''u1'' ''ann'' 32400 32400)) []"
    by (rule reachable.do_login [OF reachable.start])
  have b: "\<forall>uid. active_count [closed_row, open_row] uid \<le> 1"
    by (simp add: active_count_def is_active_for_def closed_row_def open_row_def)
  from a b one_active_session_per_user
    [of "snd (login [] ''u1'' ''ann'' 32400 32400)" "[]" "[closed_row, open_row]"
        "Login ''u1'' ''ann'' 39600 39600"]
  show ?thesis by blast
qed

lemma close_session_fields:
  "\<forall>s\<in>set rows. close_fields_together s \<Longrightarrow>
   \<forall>s\<in>set (close_session rows sid e d dsc). close_fields_together s"
  by (auto simp: close_session_def close_fields_together_def)

lemma login_fields:
  "\<forall>s\<in>set rows. close_fields_together s \<Longrightarrow>
   \<forall>s\<in>set (snd (login rows uid uname current_ts db_now)). close_fields_together s"
  by (auto simp: login_def close_fields_together_def split: option.split)

lemma reachable_fields: "reachable rows ws \<Longrightarrow> \<forall>s\<in>set rows. close_fields_together s"
proof (induction rule: reachable.induct)
  case start
  show ?case by simp
next
  case (do_login rows ws uid uname current_ts db_now)
  from do_login.IH show ?case by (rule login_fields)
next
  case (do_status rows ws uid now)
  then show ?case by (simp add: status_db)
next
  case (logout_wait rows ws uid s)
  then show ?case by simp
next
  case (logout_done rows ws s reply t_dur t_end)
  then show ?case by (simp add: logout_finish_def Let_def close_session_fields)
qed

text \<open>
  Claim C6. In every reachable state each row has \<^verbatim>\<open>end_ts\<close>,
  \<^verbatim>\<open>duration_minutes\<close> and \<^verbatim>\<open>description\<close> all absent or all present. A login of
  an idle user appends one row with the three absent and changes nothing else; a
  logout of an active user sets the three, in one update, in the rows with the id of
  the session and changes nothing else.
\<close>

theorem closing_fields_all_or_none:
  "(reachable rows ws \<longrightarrow> (\<forall>s\<in>set rows. close_fields_together s)) \<and>
   (get_current_session rows' uid = None \<longrightarrow>
      (\<exists>new. snd (login rows' uid uname current_ts db_now) = rows' @ [new] \<and>
         end_ts new = None \<and> duration_minutes new = None \<and> description new = None)) \<and>
   (get_current_session rows' uid' = Some s' \<longrightarrow>
      (\<exists>d dsc. snd (logout rows' uid' reply t_dur t_end) =
         map (\<lambda>r. if session_id r = session_id s'
                   then r\<lparr>end_ts := Some t_end, duration_minutes := Some d,
                          description := Some dsc\<rparr>
                   else r) rows'))"
proof (intro conjI impI)
  assume "reachable rows ws"
  then show "\<forall>s\<in>set rows. close_fields_together s" by (rule reachable_fields)
next
  assume "get_current_session rows' uid = None"
  then show "\<exists>new. snd (login rows' uid uname current_ts db_now) = rows' @ [new] \<and>
         end_ts new = None \<and> duration_minutes new = None \<and> description new = None"
    by (simp add: login_def)
next
  assume "get_current_session rows' uid' = Some s'"
  then show "\<exists>d dsc. snd (logout rows' uid' reply t_dur t_end) =
         map (\<lambda>r. if session_id r = session_id s'
                   then r\<lparr>end_ts := Some t_end, duration_minutes := Some d,
                          description := Some dsc\<rparr>
                   else r) rows'"
    by (auto simp: logout_def logout_finish_def Let_def close_session_def)
qed

text \<open>
  An instance of claim C6: the table after three closed sessions and a fourth login,
  a login of an idle user and a logout of an active one.
\<close>

theorem closing_fields_all_or_none_witness:
  "reachable (run [] (abc_commands @ [Login ''1'' ''A'' 10000 10000])) [] \<and>
   get_current_session [closed_row, open_row] ''u1'' = None \<and>
   get_current_session [closed_row, open_row] ''u2'' = Some open_row \<and>
   length (run [] (abc_commands @ [Login ''1'' ''A'' 10000 10000])) = 4 \<and>
   list_all close_fields_together
     (run [] (abc_commands @ [Login ''1'' ''A'' 10000 10000])) \<and>
   (\<exists>new. snd (login [closed_row, open_row] ''u1'' ''ann'' 40000 40000) =
        [closed_row, open_row] @ [new] \<and>
      end_ts new = None \<and> duration_minutes new = None \<and> description new = None) \<and>
   (\<exists>d dsc. snd (logout [closed_row, open_row] ''u2'' None 40000 40000) =
      map (\<lambda>r. if session_id r = session_id open_row
                then r\<lparr>end_ts := Some 40000, duration_minutes := Some d,
                       description := Some dsc\<rparr>
                else r) [closed_row, open_row])"
proof -
  have a: "reachable (run [] (abc_commands @ [Login ''1'' ''A'' 10000 10000])) []"
    by (rule run_reachable [OF reachable.start])
  have b: "length (run [] (abc_commands @ [Login ''1'' ''A'' 10000 10000])) = 4"
    by code_simp
  have c: "get_current_session [closed_row, open_row] ''u1'' = None" by code_simp
  have d: "get_current_session [closed_row, open_row] ''u2'' = Some open_row" by code_simp
  from a b c d closing_fields_all_or_none
    [of "run [] (abc_commands @ [Login ''1'' ''A'' 10000 10000])" "[]"
        "[closed_row, open_row]" "''u1''" "''ann''" 40000 40000 "''u2''" open_row
        None 40000 40000]
  show ?thesis unfolding list_all_iff by blast
qed

text \<open>
  Claim C7. From a table in which the user has no open session, login succeeds,
  then logout succeeds and leaves the user without an open session, then login
  succeeds again.
\<close>

theorem login_logout_login:
  assumes "get_current_session rows uid = None"
  shows "let (r1, rows1) = login rows uid uname t0 c0;
             (r2, rows2) = logout rows1 uid reply t1 t2;
             (r3, rows3) = login rows2 uid uname' t3 c3;
             d = round_div60 (t1 - t0)
         in r1 = ClockedIn \<and>
            r2 = SessionLogged (d div 60) (d mod 60)
                   (case reply of Some m \<Rightarrow> m
                    | None \<Rightarrow> ''No description provided (Timed out).'') \<and>
            get_current_session rows2 uid = None \<and>
            r3 = ClockedIn"
proof -
  define new where "new = \<lparr>session_id = next_id rows, user_id = uid, username = uname,
                    start_ts = t0, end_ts = None, duration_minutes = None,
                    description = None, created_at = c0\<rparr>"
  define dsc where "dsc = (case reply of Some m \<Rightarrow> m
                           | None \<Rightarrow> ''No description provided (Timed out).'')"
  define d where "d = round_div60 (t1 - t0)"
  define rows2 where "rows2 = close_session (rows @ [new]) (next_id rows) t2 d dsc"
  have l1: "login rows uid uname t0 c0 = (ClockedIn, rows @ [new])"
    using assms by (simp add: login_def new_def)
  have act: "is_active_for uid new" by (simp add: is_active_for_def new_def)
  have cur: "get_current_session (rows @ [new]) uid = Some new"
    using assms act by (rule get_current_session_append_new)
  have l2: "logout (rows @ [new]) uid reply t1 t2 =
      (SessionLogged (d div 60) (d mod 60) dsc, rows2)"
  proof -
    have "logout (rows @ [new]) uid reply t1 t2 =
        logout_finish (rows @ [new]) new reply t1 t2"
      by (simp add: logout_def cur)
    moreover have "session_id new = next_id rows" and "start_ts new = t0"
      by (simp_all add: new_def)
    ultimately show ?thesis
      by (simp add: logout_finish_def Let_def get_session_duration_def dsc_def d_def
          rows2_def)
  qed
  have "\<forall>s\<in>set rows. \<not> is_active_for uid s"
    using assms by (simp add: get_current_session_None_iff)
  then have "\<forall>s\<in>set rows2. \<not> is_active_for uid s"
    by (auto simp: rows2_def close_session_def is_active_for_def new_def)
  then have idle: "get_current_session rows2 uid = None"
    by (simp add: get_current_session_None_iff)
  then have l3: "fst (login rows2 uid uname' t3 c3) = ClockedIn"
    by (simp add: login_def)
  show ?thesis
    using l1 l2 idle l3 by (auto simp: Let_def dsc_def d_def split: prod.split)
qed

text \<open>
  An instance of claim C7: a user with one closed session works for an hour and
  gives no description.
\<close>

theorem login_logout_login_witness:
  "get_current_session [closed_row, open_row] ''u1'' = None \<and>
   (let (r1, rows1) = login [closed_row, open_row] ''u1'' ''ann'' 40000 40000;
        (r2, rows2) = logout rows1 ''u1'' None 43600 43600;
        (r3, rows3) = login rows2 ''u1'' ''ann'' 50000 50000
    in r1 = ClockedIn \<and>
       r2 = SessionLogged 1 0 ''No description provided (Timed out).'' \<and>
       get_current_session rows2 ''u1'' = None \<and> r3 = ClockedIn)"
proof -
  have a: "get_current_session [closed_row, open_row] ''u1'' = None" by code_simp
  have b: "round_div60 3600 = 60" by code_simp
  from a login_logout_login
    [OF a, of "''ann''" 40000 40000 None 43600 43600 "''ann''" 50000 50000]
  show ?thesis by (simp add: Let_def b split: prod.splits)
qed

section \<open>The grouped query\<close>

lemma keys_add_to_group:
  "fst ` set (add_to_group k d gs) = insert k (fst ` set gs)"
  by (induction k d gs rule: add_to_group.induct) auto

lemma sorted_add_to_group:
  "sorted_wrt (<) (map fst gs) \<Longrightarrow> sorted_wrt (<) (map fst (add_to_group k d gs))"
proof (induction k d gs rule: add_to_group.induct)
  case (1 k d)
  show ?case by simp
next
  case (2 k d k' t c gs)
  have keys: "set (map fst (add_to_group k d gs)) = insert k (fst ` set gs)"
    using keys_add_to_group [of k d gs] by simp
  show ?case
  proof (cases "k' = k")
    case True
    with "2.prems" show ?thesis by simp
  next
    case False
    show ?thesis
    proof (cases "k < k'")
      case True
      with "2.prems" False show ?thesis by auto
    next
      case not_less: False
      with False have "k' < k" by simp
      moreover from "2.prems" have "\<forall>y\<in>fst ` set gs. k' < y" and "sorted_wrt (<) (map fst gs)"
        by simp_all
      moreover from this(2) False not_less
      have "sorted_wrt (<) (map fst (add_to_group k d gs))" by (simp add: "2.IH")
      ultimately show ?thesis using False not_less keys by simp
    qed
  qed
qed

lemma map_of_add_to_group:
  "sorted_wrt (<) (map fst gs) \<Longrightarrow>
   map_of (add_to_group k d gs) =
     (map_of gs)(k \<mapsto> (case map_of gs k of None \<Rightarrow> (d, 1) | Some (t, c) \<Rightarrow> (t + d, Suc c)))"
proof (induction k d gs rule: add_to_group.induct)
  case (1 k d)
  show ?case by simp
next
  case (2 k d k' t c gs)
  show ?case
  proof (cases "k' = k")
    case True
    then show ?thesis by (simp add: fun_eq_iff)
  next
    case False
    show ?thesis
    proof (cases "k < k'")
      case True
      with "2.prems" have "\<forall>y\<in>fst ` set gs. k < y" by auto
      then have "k \<notin> fst ` set gs" by auto
      then have "map_of gs k = None" by (simp add: map_of_eq_None_iff)
      with False True show ?thesis by (simp add: fun_eq_iff)
    next
      case not_less: False
      from "2.prems" have "sorted_wrt (<) (map fst gs)" by simp
      with False not_less have ih: "map_of (add_to_group k d gs) =
          (map_of gs)(k \<mapsto> (case map_of gs k of None \<Rightarrow> (d, 1)
                                | Some (t, c) \<Rightarrow> (t + d, Suc c)))"
        by (rule "2.IH")
      show ?thesis
      proof (rule ext)
        fix x
        show "map_of (add_to_group k d ((k', t, c) # gs)) x =
            ((map_of ((k', t, c) # gs))
               (k \<mapsto> (case map_of ((k', t, c) # gs) k of None \<Rightarrow> (d, 1)
                        | Some (t, c) \<Rightarrow> (t + d, Suc c)))) x"
          using False not_less by (cases "x = k") (simp_all add: ih)
      qed
    qed
  qed
qed

lemma key_durations_Nil: "key_durations [] k = []"
  by (simp add: key_durations_def List.map_filter_simps)

lemma key_durations_Cons:
  "key_durations (s # rows) k =
     (case duration_minutes s of
        None \<Rightarrow> key_durations rows k
      | Some d \<Rightarrow> if (user_id s, username s) = k then d # key_durations rows k
                  else key_durations rows k)"
  by (simp add: key_durations_def List.map_filter_simps split: option.split)

lemma key_durations_nonempty:
  assumes "s \<in> set rows" and "duration_minutes s \<noteq> None"
  shows "key_durations rows (user_id s, username s) \<noteq> []"
  using assms by (induction rows) (auto simp: key_durations_Cons split: option.split)

text \<open>
  The accumulation, started from any groups in strictly rising key order: the keys
  stay in that order, and each group has grown by the durations of its own pair and
  no others.
\<close>

lemma foldl_group_step:
  "sorted_wrt (<) (map fst gs) \<Longrightarrow>
   sorted_wrt (<) (map fst (foldl group_step gs rows)) \<and>
   map_of (foldl group_step gs rows) k = merge_group (map_of gs k) (key_durations rows k)"
proof (induction rows arbitrary: gs)
  case Nil
  then show ?case
    by (simp add: key_durations_Nil merge_group_def split: option.split)
next
  case (Cons s rows)
  show ?case
  proof (cases "duration_minutes s")
    case None
    then have "group_step gs s = gs" by (simp add: group_step_def)
    with Cons None show ?thesis by (simp add: key_durations_Cons)
  next
    case (Some d)
    let ?gs = "add_to_group (user_id s, username s) d gs"
    from Cons.prems have "sorted_wrt (<) (map fst ?gs)" by (rule sorted_add_to_group)
    from Cons.IH [OF this] have
      "sorted_wrt (<) (map fst (foldl group_step ?gs rows))" and
      "map_of (foldl group_step ?gs rows) k =
         merge_group (map_of ?gs k) (key_durations rows k)"
      by simp_all
    moreover have "merge_group (map_of ?gs k) (key_durations rows k) =
        merge_group (map_of gs k) (key_durations (s # rows) k)"
      by (auto simp: map_of_add_to_group [OF Cons.prems] key_durations_Cons Some
          merge_group_def split: option.split)
    moreover have "group_step gs s = ?gs" by (simp add: group_step_def Some)
    ultimately show ?thesis by simp
  qed
qed

lemma sorted_aggregate: "sorted_wrt (<) (map fst (aggregate_by_user rows))"
  using foldl_group_step [of "[]" rows] by (simp add: aggregate_by_user_def)

lemma distinct_aggregate: "distinct (map fst (aggregate_by_user rows))"
  using sorted_aggregate [of rows] by (simp add: strict_sorted_iff)

lemma map_of_aggregate:
  "map_of (aggregate_by_user rows) k =
     (if key_durations rows k = [] then None
      else Some (sum_list (key_durations rows k), length (key_durations rows k)))"
  using foldl_group_step [of "[]" rows k] by (simp add: aggregate_by_user_def merge_group_def)

lemma aggregate_entry:
  "(k, t, c) \<in> set (aggregate_by_user rows) \<longleftrightarrow>
     key_durations rows k \<noteq> [] \<and> t = sum_list (key_durations rows k) \<and>
     c = length (key_durations rows k)"
proof -
  have "(k, t, c) \<in> set (aggregate_by_user rows) \<longleftrightarrow>
      map_of (aggregate_by_user rows) k = Some (t, c)"
    using distinct_aggregate [of rows] by simp
  then show ?thesis by (auto simp: map_of_aggregate)
qed

subsection \<open>Ordering and limit\<close>

lemma set_insert_desc: "set (insert_desc g gs) = insert g (set gs)"
  by (induction gs) auto

lemma length_insert_desc: "length (insert_desc g gs) = Suc (length gs)"
  by (induction gs) auto

lemma distinct_keys_insert_desc:
  "distinct (map fst (insert_desc g gs)) \<longleftrightarrow>
     fst g \<notin> fst ` set gs \<and> distinct (map fst gs)"
  by (induction gs) (auto simp: set_insert_desc)

lemma sorted_insert_desc:
  "sorted_wrt (\<lambda>a b. total_minutes b \<le> total_minutes a) gs \<Longrightarrow>
   sorted_wrt (\<lambda>a b. total_minutes b \<le> total_minutes a) (insert_desc g gs)"
  by (induction gs) (auto simp: set_insert_desc)

lemma set_order_by_total_desc: "set (order_by_total_desc gs) = set gs"
  by (induction gs) (auto simp: set_insert_desc)

lemma length_order_by_total_desc: "length (order_by_total_desc gs) = length gs"
  by (induction gs) (auto simp: length_insert_desc)

lemma sorted_order_by_total_desc:
  "sorted_wrt (\<lambda>a b. total_minutes b \<le> total_minutes a) (order_by_total_desc gs)"
  by (induction gs) (auto simp: sorted_insert_desc)

lemma distinct_keys_order:
  "distinct (map fst gs) \<Longrightarrow> distinct (map fst (order_by_total_desc gs))"
  by (induction gs) (auto simp: distinct_keys_insert_desc set_order_by_total_desc)

lemma length_top_groups: "length (top_groups n rows) \<le> n"
  by (simp add: top_groups_def)

lemma set_top_groups: "set (top_groups n rows) \<subseteq> set (aggregate_by_user rows)"
  using set_take_subset [of n "order_by_total_desc (aggregate_by_user rows)"]
  by (simp add: top_groups_def set_order_by_total_desc)

lemma top_groups_all:
  "length (aggregate_by_user rows) \<le> n \<Longrightarrow>
   set (top_groups n rows) = set (aggregate_by_user rows)"
  by (simp add: top_groups_def length_order_by_total_desc set_order_by_total_desc)

lemma sorted_top_groups:
  "sorted_wrt (\<lambda>a b. total_minutes b \<le> total_minutes a) (top_groups n rows)"
  by (simp add: top_groups_def sorted_wrt_take sorted_order_by_total_desc)

lemma distinct_top_groups: "distinct (map fst (top_groups n rows))"
  by (simp add: top_groups_def distinct_keys_order distinct_aggregate flip: take_map)

lemma top_groups_entry:
  assumes "(k, t, c) \<in> set (top_groups n rows)"
  shows "key_durations rows k \<noteq> [] \<and> t = sum_list (key_durations rows k) \<and>
     c = length (key_durations rows k)"
  using assms set_top_groups [of n rows] by (auto simp: aggregate_entry)

lemma descending_totals:
  "descending (map total_minutes gs) \<longleftrightarrow>
     sorted_wrt (\<lambda>a b. total_minutes b \<le> total_minutes a) gs"
  by (simp add: descending_def sorted_wrt_map)

lemma leaderboard_query_totals:
  "map snd (leaderboard_query rows) = map total_minutes (top_groups 10 rows)"
  by (simp add: leaderboard_query_def total_minutes_def split_def)

section \<open>Leaderboard and reports\<close>

text \<open>
  Claim C8, against the code. Two users have worked 30 minutes each. The leaderboard
  lists both with the total 30, so its totals do not fall strictly from one entry to
  the next.
\<close>

theorem leaderboard_tie_not_strict:
  "map snd (leaderboard_query (run [] tie_commands)) = [30, 30] \<and>
   \<not> strictly_descending (map snd (leaderboard_query (run [] tie_commands)))"
  by code_simp

text \<open>
  Claim C8, as amended. The leaderboard has at most 10 entries; their totals never
  rise from one entry to the next, equal totals being allowed; and each entry is a
  name with the sum of \<^verbatim>\<open>duration_minutes\<close> over the rows that have a duration, of
  one user under that name, of which there is at least one.
\<close>

theorem leaderboard_top_ten_descending:
  "length (leaderboard_query rows) \<le> 10 \<and>
   descending (map snd (leaderboard_query rows)) \<and>
   (\<forall>(uname, t)\<in>set (leaderboard_query rows).
      \<exists>uid. key_durations rows (uid, uname) \<noteq> [] \<and>
        t = sum_list (key_durations rows (uid, uname)))"
proof (intro conjI)
  show "length (leaderboard_query rows) \<le> 10"
    by (simp add: leaderboard_query_def length_top_groups)
  show "descending (map snd (leaderboard_query rows))"
    by (simp add: leaderboard_query_totals descending_totals sorted_top_groups)
  show "\<forall>(uname, t)\<in>set (leaderboard_query rows).
      \<exists>uid. key_durations rows (uid, uname) \<noteq> [] \<and>
        t = sum_list (key_durations rows (uid, uname))"
  proof (clarify)
    fix uname t
    assume "(uname, t) \<in> set (leaderboard_query rows)"
    then obtain uid c where "((uid, uname), t, c) \<in> set (top_groups 10 rows)"
      by (auto simp: leaderboard_query_def)
    then have "key_durations rows (uid, uname) \<noteq> [] \<and>
        t = sum_list (key_durations rows (uid, uname))"
      by (simp add: top_groups_entry)
    then show "\<exists>uid. key_durations rows (uid, uname) \<noteq> [] \<and>
        t = sum_list (key_durations rows (uid, uname))" ..
  qed
qed

text \<open>
  An instance of the amended claim C8: the totals A 120, B 90 and C 150 give the
  order C, A, B.
\<close>

theorem leaderboard_top_ten_descending_witness:
  "leaderboard_query (run [] abc_commands) = [(''C'', 150), (''A'', 120), (''B'', 90)] \<and>
   length (leaderboard_query (run [] abc_commands)) \<le> 10 \<and>
   descending (map snd (leaderboard_query (run [] abc_commands))) \<and>
   (\<exists>uid. key_durations (run [] abc_commands) (uid, ''C'') \<noteq> [] \<and>
      150 = sum_list (key_durations (run [] abc_commands) (uid, ''C'')))"
proof -
  have a: "leaderboard_query (run [] abc_commands) =
      [(''C'', 150), (''A'', 120), (''B'', 90)]"
    by code_simp
  then have "(''C'', 150) \<in> set (leaderboard_query (run [] abc_commands))" by simp
  with a leaderboard_top_ten_descending [of "run [] abc_commands"] show ?thesis by blast
qed

subsection \<open>The report for one user\<close>

lemma user_durations_Nil: "user_durations [] uid = []"
  by (simp add: user_durations_def List.map_filter_simps)

lemma user_durations_Cons:
  "user_durations (s # rows) uid =
     (case duration_minutes s of
        None \<Rightarrow> user_durations rows uid
      | Some d \<Rightarrow> if user_id s = uid then d # user_durations rows uid
                  else user_durations rows uid)"
  by (simp add: user_durations_def List.map_filter_simps split: option.split)

lemma foldl_user_step:
  "foldl (user_step uid) (a, c) rows =
     (if user_durations rows uid = [] then (a, c)
      else (Some ((case a of None \<Rightarrow> 0 | Some t \<Rightarrow> t) + sum_list (user_durations rows uid)),
            c + length (user_durations rows uid)))"
proof (induction rows arbitrary: a c)
  case Nil
  show ?case by (simp add: user_durations_Nil)
next
  case (Cons s rows)
  show ?case
  proof (cases "duration_minutes s")
    case None
    then have "user_step uid (a, c) s = (a, c)" by (simp add: user_step_def)
    with None Cons.IH show ?thesis by (simp add: user_durations_Cons)
  next
    case (Some d)
    show ?thesis
    proof (cases "user_id s = uid")
      case False
      with Some have "user_step uid (a, c) s = (a, c)" by (simp add: user_step_def)
      with Some False Cons.IH show ?thesis by (simp add: user_durations_Cons)
    next
      case True
      with Some have "user_step uid (a, c) s =
          (Some ((case a of None \<Rightarrow> 0 | Some t \<Rightarrow> t) + d), Suc c)"
        by (simp add: user_step_def split: option.split)
      with Some True Cons.IH show ?thesis by (simp add: user_durations_Cons)
    qed
  qed
qed

lemma user_totals_eq:
  "user_totals rows uid =
     (if user_durations rows uid = [] then (None, 0)
      else (Some (sum_list (user_durations rows uid)), length (user_durations rows uid)))"
  by (simp add: user_totals_def foldl_user_step)

text \<open>
  Claim C9. For a user with no completed session the report is "No completed work
  sessions found"; otherwise it is the work report with the number of the user's
  completed sessions and the sum of their \<^verbatim>\<open>duration_minutes\<close>, shown as hours and
  minutes.
\<close>

theorem report_one_user:
  "report rows (Some (uid, uname)) =
     (if user_durations rows uid = [] then NoCompletedFound uname
      else WorkReport uname (length (user_durations rows uid))
             (sum_list (user_durations rows uid) div 60)
             (sum_list (user_durations rows uid) mod 60))"
  by (simp add: report_def user_totals_eq)

text \<open>
  An instance of claim C9: a user whose only session is still open, and a user with
  one completed session of 30 minutes.
\<close>

theorem report_one_user_witness:
  "user_durations [closed_row, open_row] ''u2'' = [] \<and>
   report [closed_row, open_row] (Some (''u2'', ''bob'')) = NoCompletedFound ''bob'' \<and>
   user_durations [closed_row, open_row] ''u1'' = [30] \<and>
   report [closed_row, open_row] (Some (''u1'', ''ann'')) = WorkReport ''ann'' 1 0 30"
proof -
  have a: "user_durations [closed_row, open_row] ''u2'' = []" by code_simp
  have b: "user_durations [closed_row, open_row] ''u1'' = [30]" by code_simp
  from a b report_one_user [of "[closed_row, open_row]" "''u2''" "''bob''"]
    report_one_user [of "[closed_row, open_row]" "''u1''" "''ann''"]
  show ?thesis by simp
qed

subsection \<open>One group for each pair of user and name\<close>

text \<open>
  Claim C10. The rows of the leaderboard and of the server report are the first 10
  and the first 5 groups. Among the first \<open>n\<close> groups no pair (user_id, username)
  occurs twice, and each group holds the sum and the count of the completed sessions
  of exactly its own pair: sessions of the same user under another name are not in
  it. Where the limit cuts nothing off, every completed session's pair has its group,
  so a user with completed sessions under two names has two entries.
\<close>

theorem groups_by_user_and_name:
  "leaderboard_query rows = map (\<lambda>((uid, uname), t, c). (uname, t)) (top_groups 10 rows) \<and>
   server_report_query rows =
     map (\<lambda>((uid, uname), t, c). (uname, t, c)) (top_groups 5 rows) \<and>
   distinct (map fst (top_groups n rows)) \<and>
   (\<forall>(k, t, c)\<in>set (top_groups n rows).
      t = sum_list (key_durations rows k) \<and> c = length (key_durations rows k) \<and> 0 < c) \<and>
   (\<forall>s\<in>set rows. duration_minutes s \<noteq> None \<longrightarrow> length (aggregate_by_user rows) \<le> n \<longrightarrow>
      ((user_id s, username s),
       sum_list (key_durations rows (user_id s, username s)),
       length (key_durations rows (user_id s, username s))) \<in> set (top_groups n rows))"
proof (intro conjI)
  show "leaderboard_query rows =
      map (\<lambda>((uid, uname), t, c). (uname, t)) (top_groups 10 rows)"
    by (simp add: leaderboard_query_def)
  show "server_report_query rows =
      map (\<lambda>((uid, uname), t, c). (uname, t, c)) (top_groups 5 rows)"
    by (simp add: server_report_query_def)
  show "distinct (map fst (top_groups n rows))" by (rule distinct_top_groups)
  show "\<forall>(k, t, c)\<in>set (top_groups n rows).
      t = sum_list (key_durations rows k) \<and> c = length (key_durations rows k) \<and> 0 < c"
    using top_groups_entry [of _ _ _ n rows] by auto
  show "\<forall>s\<in>set rows. duration_minutes s \<noteq> None \<longrightarrow>
      length (aggregate_by_user rows) \<le> n \<longrightarrow>
      ((user_id s, username s),
       sum_list (key_durations rows (user_id s, username s)),
       length (key_durations rows (user_id s, username s))) \<in> set (top_groups n rows)"
    by (auto simp: top_groups_all aggregate_entry key_durations_nonempty)
qed

text \<open>
  An instance of claim C10: user 1 works 30 minutes as ann and 60 minutes as annie.
  Both queries list annie with 60 and ann with 30, and no entry with 90.
\<close>

theorem groups_by_user_and_name_witness:
  "run [] rename_commands = [ann_row, annie_row] \<and>
   user_id ann_row = user_id annie_row \<and> username ann_row \<noteq> username annie_row \<and>
   length (aggregate_by_user [ann_row, annie_row]) \<le> 5 \<and>
   ((''1'', ''ann''), 30, 1) \<in> set (top_groups 5 [ann_row, annie_row]) \<and>
   ((''1'', ''annie''), 60, 1) \<in> set (top_groups 5 [ann_row, annie_row]) \<and>
   leaderboard_query [ann_row, annie_row] = [(''annie'', 60), (''ann'', 30)] \<and>
   server_report_query [ann_row, annie_row] = [(''annie'', 60, 1), (''ann'', 30, 1)]"
proof -
  have a: "run [] rename_commands = [ann_row, annie_row]" by code_simp
  have b: "user_id ann_row = user_id annie_row \<and> username ann_row \<noteq> username annie_row"
    by (simp add: ann_row_def annie_row_def)
  have c: "length (aggregate_by_user [ann_row, annie_row]) \<le> 5" by code_simp
  have d: "duration_minutes ann_row \<noteq> None" "duration_minutes annie_row \<noteq> None"
    by (simp_all add: ann_row_def annie_row_def)
  have e: "key_durations [ann_row, annie_row] (''1'', ''ann'') = [30]"
    "key_durations [ann_row, annie_row] (''1'', ''annie'') = [60]"
    by code_simp+
  have f: "(user_id ann_row, username ann_row) = (''1'', ''ann'')"
    "(user_id annie_row, username annie_row) = (''1'', ''annie'')"
    by (simp_all add: ann_row_def annie_row_def)
  have g: "leaderboard_query [ann_row, annie_row] = [(''annie'', 60), (''ann'', 30)]"
    "server_report_query [ann_row, annie_row] = [(''annie'', 60, 1), (''ann'', 30, 1)]"
    by code_simp+
  have "((user_id ann_row, username ann_row),
       sum_list (key_durations [ann_row, annie_row] (user_id ann_row, username ann_row)),
       length (key_durations [ann_row, annie_row] (user_id ann_row, username ann_row)))
      \<in> set (top_groups 5 [ann_row, annie_row])"
    and "((user_id annie_row, username annie_row),
       sum_list (key_durations [ann_row, annie_row] (user_id annie_row, username annie_row)),
       length (key_durations [ann_row, annie_row] (user_id annie_row, username annie_row)))
      \<in> set (top_groups 5 [ann_row, annie_row])"
    using groups_by_user_and_name [of "[ann_row, annie_row]" 5] c d by simp_all
  then have "((''1'', ''ann''), 30, 1) \<in> set (top_groups 5 [ann_row, annie_row])"
    and "((''1'', ''annie''), 60, 1) \<in> set (top_groups 5 [ann_row, annie_row])"
    by (simp_all add: e f)
  with a b c g show ?thesis by simp
qed

end
